theory Spec2Isabelle
  imports Complex_Main "HOL-Library.Word"
begin

section \<open>Values of the program\<close>

text \<open>
  The encoder of \<^verbatim>\<open>src/App.jsx\<close> works on JavaScript numbers and on typed arrays.
  A number is a finite value, one of the two infinities, or NaN. Finite values are
  modelled as exact reals; the two zeros are not distinguished (both convert to the
  integer 0). An element of a \<^verbatim>\<open>Float32Array\<close> is such a number.
\<close>

datatype number = Fin real | PosInf | NegInf | NaN

type_synonym byte = "8 word"

text \<open>A \<^verbatim>\<open>DataView\<close> over a fresh \<^verbatim>\<open>ArrayBuffer\<close>: the bytes of the buffer, by offset.\<close>

type_synonym view = "byte list"

text \<open>The only exception the encoder can meet: an allocation or a write out of range.\<close>

datatype error = RangeError

definition bnd :: "error + 'a \<Rightarrow> ('a \<Rightarrow> error + 'b) \<Rightarrow> error + 'b" where
  "bnd m f = (case m of Inl e \<Rightarrow> Inl e | Inr v \<Rightarrow> f v)"

section \<open>Number operations of the language\<close>

text \<open>Truncation towards zero, the integer part taken by every integer conversion.\<close>

definition js_trunc :: "real \<Rightarrow> int" where
  "js_trunc x = (if 0 \<le> x then \<lfloor>x\<rfloor> else \<lceil>x\<rceil>)"

text \<open>
  \<^verbatim>\<open>ToUint8\<close>, \<open>ToUint16\<close>, \<open>ToInt16\<close> and \<open>ToUint32\<close> all truncate and then reduce
  modulo \<open>2 ^ k\<close>; NaN and the infinities convert to 0. \<open>to_uint k\<close> is the unsigned
  residue, which is also the bit pattern of the signed conversion.
\<close>

definition to_uint :: "nat \<Rightarrow> number \<Rightarrow> int" where
  "to_uint k v = (case v of Fin x \<Rightarrow> js_trunc x mod 2 ^ k | _ \<Rightarrow> 0)"

text \<open>\<^verbatim>\<open>Math.min\<close> and \<^verbatim>\<open>Math.max\<close> of two numbers: NaN if either is NaN.\<close>

fun num_le :: "number \<Rightarrow> number \<Rightarrow> bool" where
  "num_le NaN _ = False"
| "num_le _ NaN = False"
| "num_le NegInf _ = True"
| "num_le _ PosInf = True"
| "num_le (Fin x) (Fin y) = (x \<le> y)"
| "num_le (Fin x) NegInf = False"
| "num_le PosInf (Fin y) = False"
| "num_le PosInf NegInf = False"

definition Math_min :: "number \<Rightarrow> number \<Rightarrow> number" where
  "Math_min a b = (if a = NaN \<or> b = NaN then NaN else if num_le a b then a else b)"

definition Math_max :: "number \<Rightarrow> number \<Rightarrow> number" where
  "Math_max a b = (if a = NaN \<or> b = NaN then NaN else if num_le a b then b else a)"

text \<open>The product \<^verbatim>\<open>a * b\<close>: NaN propagates, and an infinity times zero is NaN.\<close>

fun num_sgn :: "number \<Rightarrow> real" where
  "num_sgn (Fin x) = sgn x"
| "num_sgn PosInf = 1"
| "num_sgn NegInf = - 1"
| "num_sgn NaN = 0"

definition js_times :: "number \<Rightarrow> number \<Rightarrow> number" where
  "js_times a b =
     (case (a, b) of
        (Fin x, Fin y) \<Rightarrow> Fin (x * y)
      | _ \<Rightarrow>
         (if a = NaN \<or> b = NaN \<or> num_sgn a * num_sgn b = 0 then NaN
          else if 0 < num_sgn a * num_sgn b then PosInf else NegInf))"

section \<open>Typed arrays\<close>

text \<open>
  Reading a typed array out of range gives \<^verbatim>\<open>undefined\<close> (here \<open>None\<close>); storing
  \<^verbatim>\<open>undefined\<close> in a \<^verbatim>\<open>Float32Array\<close> stores NaN; a store out of range is ignored.
  \<^verbatim>\<open>new Float32Array(n)\<close> holds \<open>n\<close> zeros.
\<close>

definition f32_get :: "number list \<Rightarrow> nat \<Rightarrow> number option" where
  "f32_get xs i = (if i < length xs then Some (xs ! i) else None)"

definition ToNumber :: "number option \<Rightarrow> number" where
  "ToNumber v = (case v of None \<Rightarrow> NaN | Some x \<Rightarrow> x)"

definition f32_set :: "number list \<Rightarrow> nat \<Rightarrow> number option \<Rightarrow> number list" where
  "f32_set xs i v = (if i < length xs then xs[i := ToNumber v] else xs)"

definition Float32Array :: "nat \<Rightarrow> number list" where
  "Float32Array n = replicate n (Fin 0)"

section \<open>The buffer and its view\<close>

text \<open>
  \<^verbatim>\<open>new ArrayBuffer(len)\<close> truncates its argument and raises on a negative length;
  the buffer is zero-filled. Limits of memory are outside the model: every
  non-negative length is allocated.
\<close>

definition ArrayBuffer :: "real \<Rightarrow> error + view" where
  "ArrayBuffer len =
     (if js_trunc len < 0 then Inl RangeError
      else Inr (replicate (nat (js_trunc len)) 0))"

text \<open>
  The setters of \<^verbatim>\<open>DataView\<close> raise a RangeError when the bytes written would not lie
  inside the view. The encoder calls the multi-byte setters with \<^verbatim>\<open>littleEndian = true\<close>,
  so the low byte is written first.
\<close>

definition setUint8 :: "view \<Rightarrow> nat \<Rightarrow> number \<Rightarrow> error + view" where
  "setUint8 view offset v =
     (if length view < offset + 1 then Inl RangeError
      else Inr (view[offset := word_of_int (to_uint 8 v)]))"

definition setUint16 :: "view \<Rightarrow> nat \<Rightarrow> number \<Rightarrow> error + view" where
  "setUint16 view offset v =
     (if length view < offset + 2 then Inl RangeError
      else Inr (view[offset := word_of_int (to_uint 16 v),
                     offset + 1 := word_of_int (to_uint 16 v div 256)]))"

text \<open>\<^verbatim>\<open>setInt16\<close> stores the same two bytes: the residue modulo \<open>2 ^ 16\<close>, read as signed.\<close>

definition setInt16 :: "view \<Rightarrow> nat \<Rightarrow> number \<Rightarrow> error + view" where
  "setInt16 view offset v = setUint16 view offset v"

definition setUint32 :: "view \<Rightarrow> nat \<Rightarrow> number \<Rightarrow> error + view" where
  "setUint32 view offset v =
     (if length view < offset + 4 then Inl RangeError
      else Inr (view[offset := word_of_int (to_uint 32 v),
                     offset + 1 := word_of_int (to_uint 32 v div 256),
                     offset + 2 := word_of_int (to_uint 32 v div 65536),
                     offset + 3 := word_of_int (to_uint 32 v div 16777216)]))"

text \<open>
  The getters a reader of the container uses (little-endian), total on lists: they
  are applied only at offsets inside the buffer.
\<close>

definition getUint8 :: "view \<Rightarrow> nat \<Rightarrow> int" where
  "getUint8 view offset = uint (view ! offset)"

definition getUint16 :: "view \<Rightarrow> nat \<Rightarrow> int" where
  "getUint16 view offset = getUint8 view offset + 256 * getUint8 view (offset + 1)"

definition getInt16 :: "view \<Rightarrow> nat \<Rightarrow> int" where
  "getInt16 view offset =
     (if getUint16 view offset < 32768 then getUint16 view offset
      else getUint16 view offset - 65536)"

definition getUint32 :: "view \<Rightarrow> nat \<Rightarrow> int" where
  "getUint32 view offset =
     getUint8 view offset + 256 * getUint8 view (offset + 1)
     + 65536 * getUint8 view (offset + 2) + 16777216 * getUint8 view (offset + 3)"

definition getString :: "view \<Rightarrow> nat \<Rightarrow> nat \<Rightarrow> int list" where
  "getString view offset n = map uint (take n (drop offset view))"

section \<open>The functions of the encoder\<close>

text \<open>
  \<^verbatim>\<open>interleave(L, R)\<close>: the result array has \<open>L.length + R.length\<close> elements and the
  loop runs over the indices of \<open>L\<close>, storing \<open>L[i]\<close> and \<open>R[i]\<close> at two consecutive
  positions.
\<close>

function interleave_loop ::
  "number list \<Rightarrow> number list \<Rightarrow> number list \<Rightarrow> nat \<Rightarrow> nat \<Rightarrow> number list" where
  "interleave_loop L R result index i =
     (if i < length L
      then interleave_loop L R
             (f32_set (f32_set result index (f32_get L i)) (index + 1) (f32_get R i))
             (index + 2) (i + 1)
      else result)"
  by pat_completeness auto
termination
  by (relation "measure (\<lambda>(L, R, result, index, i). length L - i)") auto

definition interleave :: "number list \<Rightarrow> number list \<Rightarrow> number list" where
  "interleave L R = interleave_loop L R (Float32Array (length L + length R)) 0 0"

text \<open>
  \<^verbatim>\<open>writeString(view, offset, text)\<close> stores the character codes of \<open>text\<close> from
  \<open>offset\<close> on; the recursion advances the offset where the source advances \<open>i\<close>.
\<close>

fun writeString :: "view \<Rightarrow> nat \<Rightarrow> string \<Rightarrow> error + view" where
  "writeString view offset [] = Inr view"
| "writeString view offset (c # text) =
     bnd (setUint8 view offset (Fin (real (of_char c :: nat))))
       (\<lambda>view. writeString view (offset + 1) text)"

text \<open>
  The sample loop of \<^verbatim>\<open>encodeWAV\<close>: \<open>i\<close> runs over the samples, the offset advances by
  2 whatever the bit depth, and each sample is clamped, scaled by \<open>0x7fff\<close> and stored
  with \<^verbatim>\<open>setInt16\<close>. A \<^verbatim>\<open>Float32Array\<close> element times 32767 is exact in binary64, so
  the real product is the value the program computes.
\<close>

function encode_loop :: "view \<Rightarrow> number list \<Rightarrow> nat \<Rightarrow> nat \<Rightarrow> error + view" where
  "encode_loop view samples offset i =
     (if i < length samples
      then bnd (setInt16 view offset
                  (js_times (Math_max (Fin (- 1)) (Math_min (Fin 1) (samples ! i)))
                     (Fin 32767)))
             (\<lambda>view. encode_loop view samples (offset + 2) (i + 1))
      else Inr view)"
  by pat_completeness auto
termination
  by (relation "measure (\<lambda>(view, samples, offset, i). length samples - i)") auto

text \<open>
  \<^verbatim>\<open>encodeWAV(samples, numChannels, sampleRate, bitDepth)\<close>. The channel count, the
  sample rate and the bit depth are integers; \<open>bitDepth / 8\<close> is a division of numbers.
\<close>

definition encodeWAV :: "number list \<Rightarrow> int \<Rightarrow> int \<Rightarrow> int \<Rightarrow> error + view" where
  "encodeWAV samples numChannels sampleRate bitDepth =
     (let bytesPerSample = real_of_int bitDepth / 8;
          blockAlign = real_of_int numChannels * bytesPerSample
      in
      bnd (ArrayBuffer (44 + real (length samples) * bytesPerSample)) (\<lambda>view.
      bnd (writeString view 0 ''RIFF'') (\<lambda>view.
      bnd (setUint32 view 4 (Fin (36 + real (length samples) * bytesPerSample))) (\<lambda>view.
      bnd (writeString view 8 ''WAVE'') (\<lambda>view.
      bnd (writeString view 12 ''fmt '') (\<lambda>view.
      bnd (setUint32 view 16 (Fin 16)) (\<lambda>view.
      bnd (setUint16 view 20 (Fin 1)) (\<lambda>view.
      bnd (setUint16 view 22 (Fin (real_of_int numChannels))) (\<lambda>view.
      bnd (setUint32 view 24 (Fin (real_of_int sampleRate))) (\<lambda>view.
      bnd (setUint32 view 28 (Fin (real_of_int sampleRate * blockAlign))) (\<lambda>view.
      bnd (setUint16 view 32 (Fin blockAlign)) (\<lambda>view.
      bnd (setUint16 view 34 (Fin (real_of_int bitDepth))) (\<lambda>view.
      bnd (writeString view 36 ''data'') (\<lambda>view.
      bnd (setUint32 view 40 (Fin (real (length samples) * bytesPerSample))) (\<lambda>view.
      encode_loop view samples 44 0)))))))))))))))"

section \<open>Descriptions used in the proofs\<close>

text \<open>
  The two bytes the sample loop stores for one sample, and the little-endian bytes of a
  16-bit and of a 32-bit field value. \<open>header_written\<close> lists the 44 bytes that the header
  statements of \<^verbatim>\<open>encodeWAV\<close> leave in the buffer when the bit depth is 16; lemma
  \<open>encodeWAV_16\<close> below derives both from the definitions above.
\<close>

definition sample_bytes :: "number \<Rightarrow> byte list" where
  "sample_bytes s =
     (let v = to_uint 16 (js_times (Math_max (Fin (- 1)) (Math_min (Fin 1) s)) (Fin 32767))
      in [word_of_int v, word_of_int (v div 256)])"

definition le16 :: "int \<Rightarrow> byte list" where
  "le16 v = [word_of_int v, word_of_int (v div 256)]"

definition le32 :: "int \<Rightarrow> byte list" where
  "le32 v = [word_of_int v, word_of_int (v div 256), word_of_int (v div 65536),
             word_of_int (v div 16777216)]"

definition header_written :: "nat \<Rightarrow> int \<Rightarrow> int \<Rightarrow> byte list" where
  "header_written n numChannels sampleRate =
     [82, 73, 70, 70] @ le32 (to_uint 32 (Fin (36 + real n * 2)))
     @ [87, 65, 86, 69] @ [102, 109, 116, 32] @ le32 (to_uint 32 (Fin 16))
     @ le16 (to_uint 16 (Fin 1)) @ le16 (to_uint 16 (Fin (real_of_int numChannels)))
     @ le32 (to_uint 32 (Fin (real_of_int sampleRate)))
     @ le32 (to_uint 32 (Fin (real_of_int sampleRate * (real_of_int numChannels * 2))))
     @ le16 (to_uint 16 (Fin (real_of_int numChannels * 2))) @ le16 (to_uint 16 (Fin 16))
     @ [100, 97, 116, 97] @ le32 (to_uint 32 (Fin (real n * 2)))"

text \<open>
  The check a reader of the container makes on one sample: the distance between the
  16-bit value read back, divided by 32767, and a number \<open>s\<close>, computed as the language
  computes \<^verbatim>\<open>Math.abs(v / 32767 - s)\<close>. It is NaN when \<open>s\<close> is NaN, and then no
  comparison with a bound holds (\<open>num_le\<close> is false on NaN).
\<close>

definition round_trip_error :: "int \<Rightarrow> number \<Rightarrow> number" where
  "round_trip_error v s =
     (case s of
        Fin c \<Rightarrow> Fin \<bar>real_of_int v / 32767 - c\<bar>
      | NaN \<Rightarrow> NaN
      | _ \<Rightarrow> PosInf)"

section \<open>Interleaving\<close>

declare interleave_loop.simps [simp del]

lemma length_f32_set: "length (f32_set xs i v) = length xs"
  by (simp add: f32_set_def)

lemma nth_f32_set:
  "j < length xs \<Longrightarrow> f32_set xs i v ! j = (if j = i then ToNumber v else xs ! j)"
  by (simp add: f32_set_def)

lemma length_interleave_loop: "length (interleave_loop L R result index i) = length result"
proof (induction L R result index i rule: interleave_loop.induct)
  case (1 L R result index i)
  show ?case
  proof (cases "i < length L")
    case True
    then show ?thesis
      using "1.IH" by (subst interleave_loop.simps) (simp add: length_f32_set)
  next
    case False
    then show ?thesis by (subst interleave_loop.simps) simp
  qed
qed

lemma nth_interleave_loop:
  "j < length result \<Longrightarrow>
   interleave_loop L R result index i ! j =
     (if index \<le> j \<and> j < index + 2 * (length L - i)
      then (if even (j - index) then ToNumber (f32_get L (i + (j - index) div 2))
            else ToNumber (f32_get R (i + (j - index) div 2)))
      else result ! j)"
proof (induction L R result index i arbitrary: j rule: interleave_loop.induct)
  case (1 L R result index i)
  show ?case
  proof (cases "i < length L")
    case False
    then show ?thesis by (subst interleave_loop.simps) auto
  next
    case True
    let ?r = "f32_set (f32_set result index (f32_get L i)) (index + 1) (f32_get R i)"
    have len: "j < length ?r" using "1.prems" by (simp add: length_f32_set)
    have step: "interleave_loop L R result index i = interleave_loop L R ?r (index + 2) (i + 1)"
      using True by (subst interleave_loop.simps) simp
    have IH: "interleave_loop L R result index i ! j =
        (if index + 2 \<le> j \<and> j < index + 2 + 2 * (length L - (i + 1))
         then (if even (j - (index + 2)) then ToNumber (f32_get L (i + 1 + (j - (index + 2)) div 2))
               else ToNumber (f32_get R (i + 1 + (j - (index + 2)) div 2)))
         else ?r ! j)"
      unfolding step by (rule "1.IH" [OF True len])
    have r: "?r ! j = (if j = index + 1 then ToNumber (f32_get R i)
                       else if j = index then ToNumber (f32_get L i) else result ! j)"
      using "1.prems" by (simp add: nth_f32_set length_f32_set)
    consider "j < index" | "j = index" | "j = index + 1" | "index + 2 \<le> j"
      by linarith
    then show ?thesis
    proof cases
      case 1
      then show ?thesis unfolding IH r by simp
    next
      case 2
      then show ?thesis unfolding IH r using True by auto
    next
      case 3
      then show ?thesis unfolding IH r using True by auto
    next
      case 4
      then obtain k where k: "j = index + 2 + k"
        using le_Suc_ex by blast
      have d: "(2 + k) div 2 = Suc (k div 2)" by simp
      show ?thesis unfolding IH r using True
        by (auto simp add: k d)
    qed
  qed
qed


lemma length_interleave: "length (interleave L R) = length L + length R"
  by (simp add: interleave_def length_interleave_loop Float32Array_def)

lemma nth_interleave:
  "j < length L + length R \<Longrightarrow>
   interleave L R ! j =
     (if j < 2 * length L
      then (if even j then ToNumber (f32_get L (j div 2)) else ToNumber (f32_get R (j div 2)))
      else Fin 0)"
  by (simp add: interleave_def nth_interleave_loop Float32Array_def)

text \<open>
  C2. For two channel arrays \<open>L\<close> and \<open>R\<close> of the same length \<open>n\<close>, \<open>interleave L R\<close>
  has length \<open>2 * n\<close>, and for every index \<open>i < n\<close> its element \<open>2 * i\<close> is \<open>L ! i\<close> and
  its element \<open>2 * i + 1\<close> is \<open>R ! i\<close>. Equality is equality of the stored values.
\<close>

theorem interleave_equal_lengths:
  assumes "length L = n" and "length R = n"
  shows "length (interleave L R) = 2 * n \<and>
         (\<forall>i<n. interleave L R ! (2 * i) = L ! i \<and> interleave L R ! (2 * i + 1) = R ! i)"
proof -
  have len: "length (interleave L R) = 2 * n"
    using assms by (simp add: length_interleave)
  have "interleave L R ! (2 * i) = L ! i \<and> interleave L R ! (2 * i + 1) = R ! i"
    if "i < n" for i
  proof -
    have a: "2 * i < length L + length R" and b: "2 * i + 1 < length L + length R"
      using that assms by simp_all
    have "interleave L R ! (2 * i) = L ! i"
      unfolding nth_interleave [OF a] using that assms by (simp add: f32_get_def ToNumber_def)
    moreover have "interleave L R ! (2 * i + 1) = R ! i"
      unfolding nth_interleave [OF b] using that assms by (simp add: f32_get_def ToNumber_def)
    ultimately show ?thesis by simp
  qed
  with len show ?thesis by blast
qed

theorem interleave_equal_lengths_witness:
  "length (interleave [Fin 1, Fin 2] [Fin 3, Fin 4]) = 2 * 2 \<and>
   interleave [Fin 1, Fin 2] [Fin 3, Fin 4] ! (2 * 1) = [Fin 1, Fin 2] ! 1 \<and>
   interleave [Fin 1, Fin 2] [Fin 3, Fin 4] ! (2 * 1 + 1) = [Fin 3, Fin 4] ! 1"
proof -
  have l: "length [Fin 1, Fin 2] = 2" and r: "length [Fin 3, Fin 4] = 2"
    by simp_all
  from interleave_equal_lengths [OF l r] show ?thesis
    by (metis one_less_numeral_iff semiring_norm(76))
qed

text \<open>
  C10. Whatever the two lengths are, \<open>interleave L R\<close> has length
  \<open>length L + length R\<close>; the copy loop leaves every position from \<open>2 * length L\<close> on as
  it found it, in the fresh array of \<open>interleave\<close> (where it is still the initial 0) as in
  any other array; and below \<open>2 * length L\<close> it stores \<open>L\<close> at the even positions and \<open>R\<close>
  at the odd ones. \<open>length L + length R\<close> is \<open>2 * length L\<close> exactly when the lengths are
  equal.
\<close>

theorem interleave_any_lengths:
  "length (interleave L R) = length L + length R \<and>
   (\<forall>result j. 2 * length L \<le> j \<and> j < length result \<longrightarrow>
      interleave_loop L R result 0 0 ! j = result ! j) \<and>
   (\<forall>j. 2 * length L \<le> j \<and> j < length L + length R \<longrightarrow> interleave L R ! j = Fin 0) \<and>
   (\<forall>i. i < length L \<and> 2 * i < length L + length R \<longrightarrow> interleave L R ! (2 * i) = L ! i) \<and>
   (length L + length R = 2 * length L \<longleftrightarrow> length L = length R)"
proof -
  have "interleave_loop L R result 0 0 ! j = result ! j"
    if "2 * length L \<le> j \<and> j < length result" for result j
    using that by (simp add: nth_interleave_loop)
  moreover have "interleave L R ! j = Fin 0"
    if "2 * length L \<le> j \<and> j < length L + length R" for j
    using that by (simp add: nth_interleave)
  moreover have "interleave L R ! (2 * i) = L ! i"
    if "i < length L \<and> 2 * i < length L + length R" for i
    using that by (simp add: nth_interleave f32_get_def ToNumber_def)
  moreover have "length L + length R = 2 * length L \<longleftrightarrow> length L = length R"
    by auto
  ultimately show ?thesis using length_interleave by blast
qed

theorem interleave_any_lengths_witness:
  "length (interleave [Fin 1] [Fin 3, Fin 4, Fin 7]) = 4 \<and>
   interleave_loop [Fin 1] [Fin 3, Fin 4, Fin 7] [Fin 5, Fin 6, Fin 8, Fin 9] 0 0 ! 2 = Fin 8 \<and>
   interleave [Fin 1] [Fin 3, Fin 4, Fin 7] ! 3 = Fin 0 \<and>
   interleave [Fin 1] [Fin 3, Fin 4, Fin 7] ! 0 = Fin 1"
proof -
  note t = interleave_any_lengths [of "[Fin 1]" "[Fin 3, Fin 4, Fin 7]"]
  have a: "length (interleave [Fin 1] [Fin 3, Fin 4, Fin 7]) = 4"
    using t by simp
  have b: "interleave_loop [Fin 1] [Fin 3, Fin 4, Fin 7] [Fin 5, Fin 6, Fin 8, Fin 9] 0 0 ! 2
           = [Fin 5, Fin 6, Fin 8, Fin 9] ! 2"
    using t by simp
  have c: "interleave [Fin 1] [Fin 3, Fin 4, Fin 7] ! 3 = Fin 0"
    using t by simp
  have d: "interleave [Fin 1] [Fin 3, Fin 4, Fin 7] ! (2 * 0) = [Fin 1] ! 0"
    using t by simp
  from a b c d show ?thesis by simp
qed

section \<open>The encoder at bit depth 16\<close>

text \<open>
  \<^verbatim>\<open>toWavBlob\<close> fixes \<^verbatim>\<open>bitDepth = 16\<close> and calls
  \<^verbatim>\<open>encodeWAV(samples, numChannels, sampleRate, bitDepth)\<close>: the operation the
  specification calls \<open>quantizeAndFrame(samples, channels, sampleRate)\<close> is
  \<open>encodeWAV samples channels sampleRate 16\<close>. With two bytes for each sample the buffer
  has room for every write, and the result is the header followed by the payload.
\<close>

declare encode_loop.simps [simp del]

lemma js_trunc_of_int [simp]: "js_trunc (real_of_int k) = k"
  by (simp add: js_trunc_def)

lemma js_trunc_of_nat [simp]: "js_trunc (real n) = int n"
  by (simp add: js_trunc_def)

lemma list_update_Cons_numeral [simp]:
  "(x # xs)[numeral v := y] = x # xs[numeral v - 1 := y]"
  by (simp add: numeral_eq_Suc)

lemma replicate_numeral_Cons:
  "replicate (numeral k) x = x # replicate (numeral k - 1) x"
  by (simp add: numeral_eq_Suc)

lemma to_uint_numeral: "to_uint k (Fin (numeral n)) = numeral n mod 2 ^ k"
  by (simp add: to_uint_def js_trunc_def)

lemma ArrayBuffer_16: "ArrayBuffer (44 + real n * (real_of_int 16 / 8)) = Inr (replicate (44 + 2 * n) 0)"
proof -
  have "44 + real n * (real_of_int 16 / 8) = real (44 + 2 * n)" by simp
  then show ?thesis unfolding ArrayBuffer_def by (simp only: js_trunc_of_nat) simp
qed

lemma setUint16_take_drop:
  assumes "offset + 2 \<le> length view"
  shows "setUint16 view offset v =
     Inr (take offset view @ [word_of_int (to_uint 16 v), word_of_int (to_uint 16 v div 256)]
          @ drop (offset + 2) view)"
proof -
  let ?a = "word_of_int (to_uint 16 v) :: byte"
  let ?b = "word_of_int (to_uint 16 v div 256) :: byte"
  have "view[offset := ?a, offset + 1 := ?b] = take offset view @ [?a, ?b] @ drop (offset + 2) view"
  proof (rule nth_equalityI)
    show "length (view[offset := ?a, offset + 1 := ?b])
          = length (take offset view @ [?a, ?b] @ drop (offset + 2) view)"
      using assms by simp
  next
    fix i assume "i < length (view[offset := ?a, offset + 1 := ?b])"
    then have i: "i < length view" by simp
    consider "i < offset" | "i = offset" | "i = offset + 1" | "offset + 2 \<le> i" by linarith
    then show "view[offset := ?a, offset + 1 := ?b] ! i
               = (take offset view @ [?a, ?b] @ drop (offset + 2) view) ! i"
    proof cases
      case 4
      then obtain k where k: "i = offset + 2 + k" using le_Suc_ex by blast
      show ?thesis using i assms unfolding k by (simp add: nth_append)
    qed (use i assms in \<open>simp_all add: nth_append\<close>)
  qed
  then show ?thesis using assms by (simp add: setUint16_def)
qed

lemma drop_prefix: "length p = m \<Longrightarrow> drop (m + k) (p @ rest) = drop k rest"
  by simp

lemma take_prefix: "length p = m \<Longrightarrow> take m (p @ rest) = p"
  by simp

lemma encode_loop_closed:
  "offset + 2 * (length samples - i) \<le> length view \<Longrightarrow>
   encode_loop view samples offset i =
     Inr (take offset view @ concat (map sample_bytes (drop i samples))
          @ drop (offset + 2 * (length samples - i)) view)"
proof (induction view samples offset i rule: encode_loop.induct)
  case (1 view samples offset i)
  show ?case
  proof (cases "i < length samples")
    case False
    then show ?thesis by (subst encode_loop.simps) simp
  next
    case True
    let ?v = "js_times (Math_max (Fin (- 1)) (Math_min (Fin 1) (samples ! i))) (Fin 32767)"
    let ?view1 = "take offset view @ sample_bytes (samples ! i) @ drop (offset + 2) view"
    have fits: "offset + 2 \<le> length view" using True "1.prems" by simp
    have w: "setInt16 view offset ?v = Inr ?view1"
      unfolding setInt16_def setUint16_take_drop [OF fits]
      by (simp add: sample_bytes_def Let_def)
    have len1: "length ?view1 = length view"
      using fits by (simp add: sample_bytes_def Let_def)
    have pre: "offset + 2 + 2 * (length samples - (i + 1)) \<le> length ?view1"
      unfolding len1 using True "1.prems" by simp
    have IH: "encode_loop ?view1 samples (offset + 2) (i + 1) =
        Inr (take (offset + 2) ?view1 @ concat (map sample_bytes (drop (i + 1) samples))
             @ drop (offset + 2 + 2 * (length samples - (i + 1))) ?view1)"
      by (rule "1.IH" [OF True pre])
    have step: "encode_loop view samples offset i = encode_loop ?view1 samples (offset + 2) (i + 1)"
      using True by (subst encode_loop.simps) (simp add: w bnd_def)
    have sb: "length (sample_bytes (samples ! i)) = 2"
      by (simp add: sample_bytes_def Let_def)
    have plen: "length (take offset view @ sample_bytes (samples ! i)) = offset + 2"
      using fits sb by simp
    have v1: "?view1 = (take offset view @ sample_bytes (samples ! i)) @ drop (offset + 2) view"
      by simp
    have t: "take (offset + 2) ?view1 = take offset view @ sample_bytes (samples ! i)"
      unfolding v1 by (rule take_prefix [OF plen])
    have e: "offset + 2 + 2 * (length samples - (i + 1)) = offset + 2 * (length samples - i)"
      using True by simp
    have "drop (offset + 2 + 2 * (length samples - (i + 1))) ?view1
          = drop (2 * (length samples - (i + 1))) (drop (offset + 2) view)"
      unfolding v1 by (rule drop_prefix [OF plen])
    also have "\<dots> = drop (offset + 2 + 2 * (length samples - (i + 1))) view"
      by (simp add: add.commute)
    finally have d: "drop (offset + 2 + 2 * (length samples - (i + 1))) ?view1
             = drop (offset + 2 * (length samples - i)) view"
      unfolding e .
    have c: "drop i samples = samples ! i # drop (i + 1) samples"
      using True by (simp add: Cons_nth_drop_Suc)
    show ?thesis unfolding step IH t d c by simp
  qed
qed

lemma encodeWAV_16:
  "encodeWAV samples numChannels sampleRate 16 =
     Inr (header_written (length samples) numChannels sampleRate
          @ concat (map sample_bytes samples))"
  unfolding encodeWAV_def Let_def ArrayBuffer_16
  apply (simp add: bnd_def setUint8_def setUint16_def setUint32_def
     encode_loop_closed take_update_swap)
  apply (simp add: header_written_def le16_def le32_def replicate_numeral_Cons to_uint_numeral)
  done

subsection \<open>Reading fields back\<close>

lemma div_mod_bytes16:
  fixes v :: int
  assumes "0 \<le> v" and "v < 65536"
  shows "v mod 256 + 256 * (v div 256 mod 256) = v"
proof -
  have "v div 256 < 256" using assms by linarith
  moreover have "0 \<le> v div 256" using assms by simp
  ultimately have "v div 256 mod 256 = v div 256" by simp
  then show ?thesis by simp
qed

lemma div_mod_bytes32:
  fixes v :: int
  assumes "0 \<le> v" and "v < 4294967296"
  shows "v mod 256 + 256 * (v div 256 mod 256) + 65536 * (v div 65536 mod 256)
         + 16777216 * (v div 16777216 mod 256) = v"
proof -
  define b where "b = v div 256"
  define c where "c = b div 256"
  define d where "d = c div 256"
  have c: "v div 65536 = c"
    unfolding c_def b_def using zdiv_zmult2_eq [of 256 v 256] by simp
  have d: "v div 16777216 = d"
    unfolding d_def c_def b_def
    using zdiv_zmult2_eq [of 256 v 256] zdiv_zmult2_eq [of 256 v 65536] by simp
  have "0 \<le> d" "d < 256" using assms unfolding d [symmetric] by simp_all
  then have dm: "d mod 256 = d" by simp
  have "v = v mod 256 + 256 * b" unfolding b_def by simp
  also have "b = b mod 256 + 256 * c" unfolding c_def by simp
  also have "c = c mod 256 + 256 * d" unfolding d_def by simp
  finally have "v = v mod 256 + 256 * (b mod 256 + 256 * (c mod 256 + 256 * d))" .
  then show ?thesis unfolding c d dm b_def [symmetric] by simp
qed

lemma signed16:
  fixes t :: int
  assumes "- 32768 \<le> t" and "t < 32768"
  shows "(if t mod 65536 < 32768 then t mod 65536 else t mod 65536 - 65536) = t"
proof (cases "0 \<le> t")
  case True
  then have "t mod 65536 = t" using assms by simp
  then show ?thesis using assms by simp
next
  case False
  have "(t + 65536) mod 65536 = t + 65536"
    using assms False by (intro mod_pos_pos_trivial) simp_all
  then have "t mod 65536 = t + 65536" by simp
  then show ?thesis using False assms by simp
qed

lemma uint_byte: "uint (word_of_int v :: byte) = v mod 256"
  by (simp add: uint_word_of_int)


lemma length_header_written: "length (header_written n numChannels sampleRate) = 44"
  by (simp add: header_written_def le16_def le32_def)

lemma to_uint_range: "0 \<le> to_uint k v \<and> to_uint k v < 2 ^ k"
  by (cases v) (simp_all add: to_uint_def)

lemma getUint32_bytes:
  assumes "view ! offset = word_of_int v"
    and "view ! (offset + 1) = word_of_int (v div 256)"
    and "view ! (offset + 2) = word_of_int (v div 65536)"
    and "view ! (offset + 3) = word_of_int (v div 16777216)"
    and "0 \<le> v" and "v < 4294967296"
  shows "getUint32 view offset = v"
  unfolding getUint32_def getUint8_def assms(1-4) uint_byte
  using assms(5,6) by (rule div_mod_bytes32)

lemma getUint16_bytes:
  assumes "view ! offset = word_of_int v"
    and "view ! (offset + 1) = word_of_int (v div 256)"
    and "0 \<le> v" and "v < 65536"
  shows "getUint16 view offset = v"
  unfolding getUint16_def getUint8_def assms(1-2) uint_byte
  using assms(3,4) by (rule div_mod_bytes16)

lemma header_nth:
  "k < 44 \<Longrightarrow> (header_written n numChannels sampleRate @ rest) ! k
     = header_written n numChannels sampleRate ! k"
  by (simp add: nth_append length_header_written)

lemma to_uint_of_int: "to_uint k (Fin (real_of_int z)) = z mod 2 ^ k"
  by (simp add: to_uint_def)

lemma to_uint_consts:
  "to_uint k (Fin 0) = 0"
  "to_uint k (Fin 1) = 1 mod 2 ^ k"
  "to_uint k (Fin (numeral n)) = numeral n mod 2 ^ k"
  "to_uint k (Fin (- numeral n)) = - numeral n mod 2 ^ k"
  "to_uint k NaN = 0"
  by (simp_all add: to_uint_def js_trunc_def)

lemma to_uint_small:
  "0 \<le> z \<Longrightarrow> z < 2 ^ k \<Longrightarrow> x = real_of_int z \<Longrightarrow> to_uint k (Fin x) = z"
  by (simp add: to_uint_of_int)

lemma header_u32:
  "getUint32 (header_written n numChannels sampleRate @ rest) 4 = to_uint 32 (Fin (36 + real n * 2))"
  "getUint32 (header_written n numChannels sampleRate @ rest) 16 = to_uint 32 (Fin 16)"
  "getUint32 (header_written n numChannels sampleRate @ rest) 24
     = to_uint 32 (Fin (real_of_int sampleRate))"
  "getUint32 (header_written n numChannels sampleRate @ rest) 28
     = to_uint 32 (Fin (real_of_int sampleRate * (real_of_int numChannels * 2)))"
  "getUint32 (header_written n numChannels sampleRate @ rest) 40 = to_uint 32 (Fin (real n * 2))"
proof -
  note r = to_uint_range [of 32, simplified]
  show "getUint32 (header_written n numChannels sampleRate @ rest) 4 = to_uint 32 (Fin (36 + real n * 2))"
    using r [of "Fin (36 + real n * 2)"]
    by (intro getUint32_bytes) (simp_all add: header_nth, simp_all add: header_written_def le16_def le32_def)
  show "getUint32 (header_written n numChannels sampleRate @ rest) 16 = to_uint 32 (Fin 16)"
    using r [of "Fin 16"]
    by (intro getUint32_bytes) (simp_all add: header_nth, simp_all add: header_written_def le16_def le32_def)
  show "getUint32 (header_written n numChannels sampleRate @ rest) 24
     = to_uint 32 (Fin (real_of_int sampleRate))"
    using r [of "Fin (real_of_int sampleRate)"]
    by (intro getUint32_bytes) (simp_all add: header_nth, simp_all add: header_written_def le16_def le32_def)
  show "getUint32 (header_written n numChannels sampleRate @ rest) 28
     = to_uint 32 (Fin (real_of_int sampleRate * (real_of_int numChannels * 2)))"
    using r [of "Fin (real_of_int sampleRate * (real_of_int numChannels * 2))"]
    by (intro getUint32_bytes) (simp_all add: header_nth, simp_all add: header_written_def le16_def le32_def)
  show "getUint32 (header_written n numChannels sampleRate @ rest) 40 = to_uint 32 (Fin (real n * 2))"
    using r [of "Fin (real n * 2)"]
    by (intro getUint32_bytes) (simp_all add: header_nth, simp_all add: header_written_def le16_def le32_def)
qed

lemma header_u16:
  "getUint16 (header_written n numChannels sampleRate @ rest) 20 = to_uint 16 (Fin 1)"
  "getUint16 (header_written n numChannels sampleRate @ rest) 22
     = to_uint 16 (Fin (real_of_int numChannels))"
  "getUint16 (header_written n numChannels sampleRate @ rest) 32
     = to_uint 16 (Fin (real_of_int numChannels * 2))"
  "getUint16 (header_written n numChannels sampleRate @ rest) 34 = to_uint 16 (Fin 16)"
proof -
  note r = to_uint_range [of 16, simplified]
  show "getUint16 (header_written n numChannels sampleRate @ rest) 20 = to_uint 16 (Fin 1)"
    using r [of "Fin 1"]
    by (intro getUint16_bytes) (simp_all add: header_nth, simp_all add: header_written_def le16_def le32_def)
  show "getUint16 (header_written n numChannels sampleRate @ rest) 22
     = to_uint 16 (Fin (real_of_int numChannels))"
    using r [of "Fin (real_of_int numChannels)"]
    by (intro getUint16_bytes) (simp_all add: header_nth, simp_all add: header_written_def le16_def le32_def)
  show "getUint16 (header_written n numChannels sampleRate @ rest) 32
     = to_uint 16 (Fin (real_of_int numChannels * 2))"
    using r [of "Fin (real_of_int numChannels * 2)"]
    by (intro getUint16_bytes) (simp_all add: header_nth, simp_all add: header_written_def le16_def le32_def)
  show "getUint16 (header_written n numChannels sampleRate @ rest) 34 = to_uint 16 (Fin 16)"
    using r [of "Fin 16"]
    by (intro getUint16_bytes) (simp_all add: header_nth, simp_all add: header_written_def le16_def le32_def)
qed

lemma header_strings:
  "getString (header_written n numChannels sampleRate @ rest) 0 4 = map of_char ''RIFF''"
  "getString (header_written n numChannels sampleRate @ rest) 8 4 = map of_char ''WAVE''"
  "getString (header_written n numChannels sampleRate @ rest) 12 4 = map of_char ''fmt ''"
  "getString (header_written n numChannels sampleRate @ rest) 36 4 = map of_char ''data''"
  by (simp_all add: getString_def header_written_def le16_def le32_def)


lemma length_payload: "length (concat (map sample_bytes samples)) = 2 * length samples"
  by (induction samples) (simp_all add: sample_bytes_def Let_def)

lemma length_encoded:
  "length (header_written n numChannels sampleRate @ concat (map sample_bytes samples))
     = 44 + 2 * length samples"
  by (simp add: length_header_written length_payload)

section \<open>The header\<close>

text \<open>
  C3 (as amended). For every sample sequence, channel count 1 or 2 and positive sample
  rate such that every value fits its field (the byte rate \<open>sampleRate * channels * 2\<close>
  and the chunk size \<open>36 + dataBytes\<close> are below \<open>2 ^ 32\<close>, where \<open>dataBytes\<close> is twice
  the number of samples), the buffer returned at bit depth 16 starts with the 44-byte
  header of the layout table: "RIFF" at 0, \<open>36 + dataBytes\<close> at 4, "WAVE" at 8, "fmt " at
  12, 16 at 16, audio format 1 at 20, the channel count at 22, the sample rate at 24,
  the byte rate at 28, the block align \<open>channels * 2\<close> at 32, bit depth 16 at 34, "data"
  at 36 and \<open>dataBytes\<close> at 40, every multi-byte field read little-endian.
\<close>

theorem header_layout:
  assumes "numChannels = 1 \<or> numChannels = 2"
    and "0 < sampleRate"
    and "sampleRate * numChannels * 2 < 4294967296"
    and "36 + 2 * int (length samples) < 4294967296"
  shows "\<exists>buf. encodeWAV samples numChannels sampleRate 16 = Inr buf \<and>
     getString buf 0 4 = map of_char ''RIFF'' \<and>
     getUint32 buf 4 = 36 + 2 * int (length samples) \<and>
     getString buf 8 4 = map of_char ''WAVE'' \<and>
     getString buf 12 4 = map of_char ''fmt '' \<and>
     getUint32 buf 16 = 16 \<and>
     getUint16 buf 20 = 1 \<and>
     getUint16 buf 22 = numChannels \<and>
     getUint32 buf 24 = sampleRate \<and>
     getUint32 buf 28 = sampleRate * numChannels * 2 \<and>
     getUint16 buf 32 = numChannels * 2 \<and>
     getUint16 buf 34 = 16 \<and>
     getString buf 36 4 = map of_char ''data'' \<and>
     getUint32 buf 40 = 2 * int (length samples)"
proof -
  let ?n = "length samples"
  let ?buf = "header_written ?n numChannels sampleRate @ concat (map sample_bytes samples)"
  have sr: "sampleRate < 4294967296" using assms(1-3) by auto
  have f4: "to_uint 32 (Fin (36 + real ?n * 2)) = 36 + 2 * int ?n"
    using assms(4) by (intro to_uint_small) simp_all
  have f40: "to_uint 32 (Fin (real ?n * 2)) = 2 * int ?n"
    using assms(4) by (intro to_uint_small) simp_all
  have f16: "to_uint 32 (Fin 16) = 16" and f20: "to_uint 16 (Fin 1) = 1"
    and f34: "to_uint 16 (Fin 16) = 16"
    by (simp_all add: to_uint_def js_trunc_def)
  have f22: "to_uint 16 (Fin (real_of_int numChannels)) = numChannels"
    using assms(1) by (intro to_uint_small) auto
  have f24: "to_uint 32 (Fin (real_of_int sampleRate)) = sampleRate"
    using assms(2) sr by (intro to_uint_small) simp_all
  have f28: "to_uint 32 (Fin (real_of_int sampleRate * (real_of_int numChannels * 2)))
             = sampleRate * numChannels * 2"
    using assms(1-3) by (intro to_uint_small) auto
  have f32: "to_uint 16 (Fin (real_of_int numChannels * 2)) = numChannels * 2"
    using assms(1) by (intro to_uint_small) auto
  have "encodeWAV samples numChannels sampleRate 16 = Inr ?buf"
    by (rule encodeWAV_16)
  moreover have "getString ?buf 0 4 = map of_char ''RIFF''"
    "getString ?buf 8 4 = map of_char ''WAVE''"
    "getString ?buf 12 4 = map of_char ''fmt ''"
    "getString ?buf 36 4 = map of_char ''data''"
    by (rule header_strings)+
  moreover have "getUint32 ?buf 4 = 36 + 2 * int ?n" "getUint32 ?buf 16 = 16"
    "getUint32 ?buf 24 = sampleRate" "getUint32 ?buf 28 = sampleRate * numChannels * 2"
    "getUint32 ?buf 40 = 2 * int ?n"
    unfolding header_u32 f4 f16 f24 f28 f40 by (rule refl)+
  moreover have "getUint16 ?buf 20 = 1" "getUint16 ?buf 22 = numChannels"
    "getUint16 ?buf 32 = numChannels * 2" "getUint16 ?buf 34 = 16"
    unfolding header_u16 f20 f22 f32 f34 by (rule refl)+
  ultimately show ?thesis by blast
qed

theorem header_layout_witness:
  "\<exists>buf. encodeWAV [Fin (1 / 2), Fin (- 1 / 4)] 2 48000 16 = Inr buf \<and>
     getString buf 0 4 = [82, 73, 70, 70] \<and>
     getUint32 buf 4 = 40 \<and>
     getString buf 8 4 = [87, 65, 86, 69] \<and>
     getString buf 12 4 = [102, 109, 116, 32] \<and>
     getUint32 buf 16 = 16 \<and>
     getUint16 buf 20 = 1 \<and>
     getUint16 buf 22 = 2 \<and>
     getUint32 buf 24 = 48000 \<and>
     getUint32 buf 28 = 192000 \<and>
     getUint16 buf 32 = 4 \<and>
     getUint16 buf 34 = 16 \<and>
     getString buf 36 4 = [100, 97, 116, 97] \<and>
     getUint32 buf 40 = 4"
  using header_layout [of 2 48000 "[Fin (1 / 2), Fin (- 1 / 4)]"] by simp

text \<open>
  The claim as stated, for every positive sample rate, fails where a value does not fit
  its 32-bit field: \<^verbatim>\<open>setUint32\<close> stores the value modulo \<open>2 ^ 32\<close>. For no samples, one
  channel and the sample rate \<open>2 ^ 32\<close> the field at offset 24 (and the byte rate at 28)
  holds 0.
\<close>

theorem header_sample_rate_counterexample:
  "encodeWAV [] 1 4294967296 16 =
     Inr [82, 73, 70, 70, 36, 0, 0, 0, 87, 65, 86, 69, 102, 109, 116, 32, 16, 0, 0, 0,
          1, 0, 1, 0, 0, 0, 0, 0, 0, 0, 0, 0, 2, 0, 16, 0, 100, 97, 116, 97, 0, 0, 0, 0] \<and>
   getUint32 (projr (encodeWAV [] 1 4294967296 16)) 24 = 0"
proof -
  have e: "encodeWAV [] 1 4294967296 16 =
     Inr [82, 73, 70, 70, 36, 0, 0, 0, 87, 65, 86, 69, 102, 109, 116, 32, 16, 0, 0, 0,
          1, 0, 1, 0, 0, 0, 0, 0, 0, 0, 0, 0, 2, 0, 16, 0, 100, 97, 116, 97, 0, 0, 0, 0]"
    by (simp add: encodeWAV_16 header_written_def le16_def le32_def to_uint_consts)
  show ?thesis unfolding e by (simp add: getUint32_def getUint8_def)
qed

section \<open>The buffer as a whole\<close>

text \<open>
  C4. For every sample sequence (and any channel count and sample rate), the call at bit
  depth 16 returns a buffer of exactly \<open>44 + samples.length * 2\<close> bytes; for a mono
  call, with channel count 1, the buffer of \<open>44 + S.length * 2\<close> bytes has the 16-bit
  field at bytes 22 and 23 equal to 1.
\<close>

theorem buffer_length_and_mono:
  "(\<exists>buf. encodeWAV samples numChannels sampleRate 16 = Inr buf \<and>
          length buf = 44 + length samples * 2) \<and>
   (\<exists>buf. encodeWAV S 1 r 16 = Inr buf \<and> length buf = 44 + length S * 2 \<and>
          getUint16 buf 22 = 1)"
proof -
  have "to_uint 16 (Fin (real_of_int 1)) = 1"
    by (intro to_uint_small) simp_all
  then have "getUint16 (header_written (length S) 1 r @ concat (map sample_bytes S)) 22 = 1"
    unfolding header_u16 .
  then show ?thesis
    by (simp add: encodeWAV_16 length_header_written length_payload)
qed

theorem buffer_length_and_mono_witness:
  "\<exists>buf. encodeWAV [Fin (1 / 2), Fin 0, NaN] 1 44100 16 = Inr buf \<and> length buf = 50 \<and>
         getUint16 buf 22 = 1"
  using buffer_length_and_mono [of "[Fin (1 / 2), Fin 0, NaN]" 1 44100 "[Fin (1 / 2), Fin 0, NaN]" 44100]
  by simp

text \<open>
  C6 (as amended). Whenever the chunk size \<open>36 + 2 * samples.length\<close> fits its 32-bit
  field, the declared lengths match the buffer: the field at offset 4 is the length of
  the buffer minus 8, the field at offset 40 is the length of the buffer minus 44, and
  that is the number of payload bytes, two for each sample.
\<close>

theorem declared_lengths_match:
  assumes "36 + 2 * int (length samples) < 4294967296"
  shows "\<exists>buf. encodeWAV samples numChannels sampleRate 16 = Inr buf \<and>
     getUint32 buf 4 = int (length buf) - 8 \<and>
     getUint32 buf 40 = int (length buf) - 44 \<and>
     int (length buf) - 44 = 2 * int (length samples)"
proof -
  let ?n = "length samples"
  let ?buf = "header_written ?n numChannels sampleRate @ concat (map sample_bytes samples)"
  have f4: "to_uint 32 (Fin (36 + real ?n * 2)) = 36 + 2 * int ?n"
    using assms by (intro to_uint_small) simp_all
  have f40: "to_uint 32 (Fin (real ?n * 2)) = 2 * int ?n"
    using assms by (intro to_uint_small) simp_all
  have "encodeWAV samples numChannels sampleRate 16 = Inr ?buf"
    by (rule encodeWAV_16)
  moreover have "getUint32 ?buf 4 = int (length ?buf) - 8"
    unfolding header_u32 f4 length_encoded by simp
  moreover have "getUint32 ?buf 40 = int (length ?buf) - 44"
    unfolding header_u32 f40 length_encoded by simp
  moreover have "int (length ?buf) - 44 = 2 * int ?n"
    unfolding length_encoded by simp
  ultimately show ?thesis by blast
qed

theorem declared_lengths_match_witness:
  "\<exists>buf. encodeWAV [Fin (1 / 2), Fin 0, NaN] 1 44100 16 = Inr buf \<and>
     getUint32 buf 4 = int (length buf) - 8 \<and>
     getUint32 buf 40 = int (length buf) - 44 \<and>
     int (length buf) - 44 = 6"
  using declared_lengths_match [of "[Fin (1 / 2), Fin 0, NaN]" 1 44100] by simp

text \<open>
  Without the bound the fields wrap: for \<open>2 ^ 31\<close> samples the buffer has
  \<open>2 ^ 32 + 44\<close> bytes, while the chunk size field holds 36 and the data size field 0.
\<close>

theorem declared_lengths_counterexample:
  "length (projr (encodeWAV (replicate 2147483648 (Fin 0)) 1 48000 16)) = 4294967340 \<and>
   getUint32 (projr (encodeWAV (replicate 2147483648 (Fin 0)) 1 48000 16)) 4 = 36 \<and>
   getUint32 (projr (encodeWAV (replicate 2147483648 (Fin 0)) 1 48000 16)) 40 = 0"
proof -
  have a: "to_uint 32 (Fin (36 + real (length (replicate 2147483648 (Fin 0))) * 2)) = 36"
    by (simp add: to_uint_consts)
  have b: "to_uint 32 (Fin (real (length (replicate 2147483648 (Fin 0))) * 2)) = 0"
    by (simp add: to_uint_consts)
  show ?thesis
    unfolding encodeWAV_16 sum.sel header_u32 a b length_encoded by simp
qed

text \<open>
  C8. The model is a function of the arguments of \<^verbatim>\<open>encodeWAV\<close> alone, as the source
  reads nothing else; so equal arguments give equal buffers. Beyond that, the header
  depends on the samples only through their number: two calls with the same channel
  count and sample rate on sample sequences of the same length return buffers of the
  same length whose bytes 0 to 43 are identical.
\<close>

theorem header_determinism:
  assumes "length samples1 = length samples2"
  shows "\<exists>buf1 buf2. encodeWAV samples1 numChannels sampleRate 16 = Inr buf1 \<and>
           encodeWAV samples2 numChannels sampleRate 16 = Inr buf2 \<and>
           length buf1 = length buf2 \<and> take 44 buf1 = take 44 buf2"
  using assms by (simp add: encodeWAV_16 length_header_written length_payload)

theorem header_determinism_witness:
  "\<exists>buf1 buf2. encodeWAV [Fin 1, Fin 0] 2 48000 16 = Inr buf1 \<and>
           encodeWAV [Fin (- 1 / 2), NaN] 2 48000 16 = Inr buf2 \<and>
           length buf1 = length buf2 \<and> take 44 buf1 = take 44 buf2"
  using header_determinism [of "[Fin 1, Fin 0]" "[Fin (- 1 / 2), NaN]" 2 48000] by simp

lemma setUint16_in_range:
  "offset + 2 \<le> length view \<Longrightarrow>
   \<exists>view'. setUint16 view offset v = Inr view' \<and> length view' = length view"
  by (simp add: setUint16_def)

text \<open>
  C9. At bit depth 16 the encoder has no failure path: for every sample sequence,
  channel count and sample rate it returns a buffer, of \<open>44 + samples.length * 2\<close> bytes
  (a write outside the buffer would have made the result a RangeError); and on any view
  of that length the write of two bytes for sample \<open>i\<close>, at offset \<open>44 + 2 * i\<close>, lies
  inside the view, whatever number is written.
\<close>

theorem encodeWAV_total:
  "(\<exists>buf. encodeWAV samples numChannels sampleRate 16 = Inr buf \<and>
          length buf = 44 + length samples * 2) \<and>
   (\<forall>view i v. length view = 44 + length samples * 2 \<and> i < length samples \<longrightarrow>
      (\<exists>view'. setInt16 view (44 + 2 * i) v = Inr view' \<and> length view' = length view))"
proof -
  have "\<exists>view'. setInt16 view (44 + 2 * i) v = Inr view' \<and> length view' = length view"
    if "length view = 44 + length samples * 2 \<and> i < length samples" for view i v
    unfolding setInt16_def using that by (intro setUint16_in_range) simp
  then show ?thesis
    by (simp add: encodeWAV_16 length_header_written length_payload)
qed

theorem encodeWAV_total_witness:
  "(\<exists>buf. encodeWAV [PosInf, Fin 3] 2 8000 16 = Inr buf \<and> length buf = 48) \<and>
   (\<exists>view'. setInt16 (replicate 48 0) (44 + 2 * 1) NaN = Inr view' \<and> length view' = 48)"
proof -
  note t = encodeWAV_total [of "[PosInf, Fin 3]" 2 8000]
  have a: "\<exists>buf. encodeWAV [PosInf, Fin 3] 2 8000 16 = Inr buf \<and> length buf = 48"
    using t by simp
  have "length (replicate 48 (0::byte)) = 44 + length [PosInf, Fin 3] * 2 \<and> 1 < length [PosInf, Fin 3]"
    by simp
  with t have "\<exists>view'. setInt16 (replicate 48 0) (44 + 2 * 1) NaN = Inr view'
      \<and> length view' = length (replicate 48 (0::byte))"
    by blast
  with a show ?thesis by simp
qed

text \<open>
  The bound on the writes is what the bit depth 16 buys: at bit depth 8 the buffer has
  one byte for each sample and the loop, which still writes two, runs out of it.
\<close>

lemma encodeWAV_depth8_fails: "encodeWAV [Fin 0] 1 48000 8 = Inl RangeError"
  by code_simp


section \<open>Quantization\<close>

lemma nth_payload:
  "i < length samples \<Longrightarrow>
   concat (map sample_bytes samples) ! (2 * i) = sample_bytes (samples ! i) ! 0 \<and>
   concat (map sample_bytes samples) ! (2 * i + 1) = sample_bytes (samples ! i) ! 1"
proof (induction samples arbitrary: i)
  case Nil
  then show ?case by simp
next
  case (Cons s samples)
  have l: "length (sample_bytes s) = 2" by (simp add: sample_bytes_def Let_def)
  show ?case
  proof (cases i)
    case 0
    then show ?thesis using l by (simp add: nth_append)
  next
    case (Suc j)
    then have "j < length samples" using Cons.prems by simp
    from Cons.IH [OF this] show ?thesis
      unfolding Suc using l by (simp add: nth_append)
  qed
qed

lemma clamp_cases:
  "Math_max (Fin (- 1)) (Math_min (Fin 1) (Fin x)) = Fin (max (- 1) (min 1 x))"
  "Math_max (Fin (- 1)) (Math_min (Fin 1) PosInf) = Fin 1"
  "Math_max (Fin (- 1)) (Math_min (Fin 1) NegInf) = Fin (- 1)"
  "Math_max (Fin (- 1)) (Math_min (Fin 1) NaN) = NaN"
  by (auto simp add: Math_max_def Math_min_def max_def min_def)

lemma js_times_Fin: "js_times (Fin a) (Fin b) = Fin (a * b)"
  by (simp add: js_times_def)

lemma js_times_NaN: "js_times NaN b = NaN"
  by (cases b) (simp_all add: js_times_def)

lemma js_trunc_scaled:
  assumes "- 1 \<le> c" and "c \<le> 1"
  shows "- 32767 \<le> js_trunc (c * 32767) \<and> js_trunc (c * 32767) \<le> 32767"
proof -
  have "- 32767 \<le> c * 32767" "c * 32767 \<le> 32767" using assms by simp_all
  then show ?thesis
    unfolding js_trunc_def by (auto simp add: le_floor_iff floor_le_iff ceiling_le_iff le_ceiling_iff)
qed

lemma js_trunc_error: "\<bar>real_of_int (js_trunc y) - y\<bar> < 1"
  unfolding js_trunc_def by (auto simp add: abs_less_iff) linarith+

lemma getInt16_sample:
  assumes "i < length samples"
    and "to_uint 16 (js_times (Math_max (Fin (- 1)) (Math_min (Fin 1) (samples ! i))) (Fin 32767))
         = t mod 65536"
    and "- 32768 \<le> t" and "t < 32768"
  shows "getInt16 (header_written n numChannels sampleRate @ concat (map sample_bytes samples))
           (44 + 2 * i) = t"
proof -
  let ?p = "concat (map sample_bytes samples)"
  let ?buf = "header_written n numChannels sampleRate @ ?p"
  have a: "?buf ! (44 + 2 * i) = ?p ! (2 * i)"
    by (simp add: nth_append length_header_written)
  have b: "?buf ! (44 + 2 * i + 1) = ?p ! (2 * i + 1)"
    by (simp add: nth_append length_header_written)
  have r: "0 \<le> t mod 65536" "t mod 65536 < 65536" by simp_all
  have "getUint16 ?buf (44 + 2 * i) = t mod 65536"
  proof (rule getUint16_bytes [OF _ _ r])
    show "?buf ! (44 + 2 * i) = word_of_int (t mod 65536)"
      unfolding a using nth_payload [OF assms(1)] assms(2)
      by (simp add: sample_bytes_def Let_def)
    show "?buf ! (44 + 2 * i + 1) = word_of_int (t mod 65536 div 256)"
      unfolding b using nth_payload [OF assms(1)] assms(2)
      by (simp add: sample_bytes_def Let_def)
  qed
  then have "getInt16 ?buf (44 + 2 * i)
             = (if t mod 65536 < 32768 then t mod 65536 else t mod 65536 - 65536)"
    unfolding getInt16_def by simp
  then show ?thesis
    using signed16 [OF assms(3,4)] by (simp only:)
qed


text \<open>
  C1 (as amended). For every sample \<open>i\<close> of the input, the signed 16-bit value stored
  for it is the sample clamped to \<open>[-1, 1]\<close>, scaled by 32767 and truncated towards
  zero; an infinite sample is clamped like any other, and a NaN sample, which the clamp
  leaves NaN, is stored as 0. So every stored value lies between \<open>-32767\<close> and \<open>32767\<close>.
  In particular 1.5 is stored as 1.0 is, as 32767, and \<open>-2.0\<close> as \<open>-1.0\<close> is, as
  \<open>-32767\<close> (see the evaluation at these four samples below).
\<close>

theorem quantize_clamps:
  assumes "i < length samples"
  shows "\<exists>buf. encodeWAV samples numChannels sampleRate 16 = Inr buf \<and>
     getInt16 buf (44 + 2 * i) =
       (case samples ! i of
          Fin x \<Rightarrow> js_trunc (max (- 1) (min 1 x) * 32767)
        | PosInf \<Rightarrow> 32767
        | NegInf \<Rightarrow> - 32767
        | NaN \<Rightarrow> 0) \<and>
     - 32767 \<le> getInt16 buf (44 + 2 * i) \<and> getInt16 buf (44 + 2 * i) \<le> 32767"
proof -
  let ?buf = "header_written (length samples) numChannels sampleRate
              @ concat (map sample_bytes samples)"
  let ?t = "case samples ! i of
          Fin x \<Rightarrow> js_trunc (max (- 1) (min 1 x) * 32767)
        | PosInf \<Rightarrow> 32767
        | NegInf \<Rightarrow> - 32767
        | NaN \<Rightarrow> 0"
  have range: "- 32767 \<le> ?t \<and> ?t \<le> 32767"
  proof (cases "samples ! i")
    case (Fin x)
    then show ?thesis using js_trunc_scaled [of "max (- 1) (min 1 x)"] by simp
  qed simp_all
  have stored: "to_uint 16 (js_times (Math_max (Fin (- 1)) (Math_min (Fin 1) (samples ! i)))
                  (Fin 32767)) = ?t mod 65536"
  proof (cases "samples ! i")
    case (Fin x)
    then show ?thesis by (simp add: clamp_cases js_times_Fin to_uint_def)
  next
    case PosInf
    then show ?thesis by (simp add: clamp_cases js_times_Fin to_uint_def js_trunc_def)
  next
    case NegInf
    then show ?thesis by (simp add: clamp_cases js_times_Fin to_uint_def js_trunc_def)
  next
    case NaN
    then show ?thesis by (simp add: clamp_cases js_times_NaN to_uint_def)
  qed
  have "getInt16 ?buf (44 + 2 * i) = ?t"
    using assms stored range by (intro getInt16_sample) simp_all
  with range show ?thesis
    by (simp add: encodeWAV_16)
qed

theorem quantize_clamps_witness:
  "\<exists>buf. encodeWAV [Fin (3 / 2), Fin 1, Fin (- 2), Fin (- 1)] 1 48000 16 = Inr buf \<and>
     getInt16 buf 44 = 32767 \<and> getInt16 buf 46 = 32767 \<and>
     getInt16 buf 48 = - 32767 \<and> getInt16 buf 50 = - 32767"
proof -
  let ?s = "[Fin (3 / 2), Fin 1, Fin (- 2), Fin (- 1)]"
  note t = quantize_clamps [of _ ?s 1 48000]
  from t [of 0] obtain buf where buf: "encodeWAV ?s 1 48000 16 = Inr buf"
    and v0: "getInt16 buf 44 = 32767"
    by (auto simp add: js_trunc_def)
  from t [of 1] buf have v1: "getInt16 buf 46 = 32767"
    by (auto simp add: js_trunc_def)
  from t [of 2] buf have v2: "getInt16 buf 48 = - 32767"
    by (auto simp add: js_trunc_def)
  from t [of 3] buf have v3: "getInt16 buf 50 = - 32767"
    by (auto simp add: js_trunc_def)
  from buf v0 v1 v2 v3 show ?thesis by simp
qed

text \<open>
  The claim as stated has \<open>-2.0\<close> stored as \<open>-32768\<close>. The stored bytes are
  \<open>0x01 0x80\<close>, which is \<open>-32767\<close>: the clamped value \<open>-1\<close> times \<open>0x7fff\<close>.
\<close>

theorem clamp_negative_counterexample:
  "encodeWAV [Fin (- 2)] 1 48000 16 =
     Inr [82, 73, 70, 70, 38, 0, 0, 0, 87, 65, 86, 69, 102, 109, 116, 32, 16, 0, 0, 0,
          1, 0, 1, 0, 128, 187, 0, 0, 0, 119, 1, 0, 2, 0, 16, 0, 100, 97, 116, 97, 2, 0, 0, 0,
          1, 128] \<and>
   getInt16 (projr (encodeWAV [Fin (- 2)] 1 48000 16)) 44 = - 32767 \<and>
   getInt16 (projr (encodeWAV [Fin (- 2)] 1 48000 16)) 44 \<noteq> - 32768"
proof -
  have e: "encodeWAV [Fin (- 2)] 1 48000 16 =
     Inr [82, 73, 70, 70, 38, 0, 0, 0, 87, 65, 86, 69, 102, 109, 116, 32, 16, 0, 0, 0,
          1, 0, 1, 0, 128, 187, 0, 0, 0, 119, 1, 0, 2, 0, 16, 0, 100, 97, 116, 97, 2, 0, 0, 0,
          1, 128]"
    by (simp add: encodeWAV_16 header_written_def le16_def le32_def to_uint_consts
          sample_bytes_def clamp_cases js_times_Fin)
  show ?thesis unfolding e by (simp add: getInt16_def getUint16_def getUint8_def)
qed

text \<open>
  C5 (as amended). For every sample \<open>i\<close> of the input that is not NaN, the clamped
  sample is a number \<open>c\<close> in \<open>[-1, 1]\<close>, and the signed 16-bit little-endian value read
  back from the payload at offset \<open>44 + 2 * i\<close>, divided by 32767, differs from \<open>c\<close> by
  less than \<open>1 / 32767\<close>; so the reader's check of that sample against the bound
  \<open>1 / 32767\<close> holds.
\<close>

theorem quantization_round_trip:
  assumes "i < length samples" and "samples ! i \<noteq> NaN"
  shows "\<exists>buf c. encodeWAV samples numChannels sampleRate 16 = Inr buf \<and>
     Math_max (Fin (- 1)) (Math_min (Fin 1) (samples ! i)) = Fin c \<and>
     - 1 \<le> c \<and> c \<le> 1 \<and>
     \<bar>real_of_int (getInt16 buf (44 + 2 * i)) / 32767 - c\<bar> < 1 / 32767 \<and>
     num_le (round_trip_error (getInt16 buf (44 + 2 * i))
               (Math_max (Fin (- 1)) (Math_min (Fin 1) (samples ! i))))
            (Fin (1 / 32767))"
proof -
  let ?buf = "header_written (length samples) numChannels sampleRate
              @ concat (map sample_bytes samples)"
  obtain c where cl: "Math_max (Fin (- 1)) (Math_min (Fin 1) (samples ! i)) = Fin c"
    and c: "- 1 \<le> c \<and> c \<le> 1"
    using assms(2) by (cases "samples ! i") (auto simp add: clamp_cases)
  have stored: "to_uint 16 (js_times (Math_max (Fin (- 1)) (Math_min (Fin 1) (samples ! i)))
                  (Fin 32767)) = js_trunc (c * 32767) mod 65536"
    unfolding cl by (simp add: js_times_Fin to_uint_def)
  have v: "getInt16 ?buf (44 + 2 * i) = js_trunc (c * 32767)"
    using assms(1) stored js_trunc_scaled [of c] c by (intro getInt16_sample) simp_all
  have "\<bar>real_of_int (js_trunc (c * 32767)) - c * 32767\<bar> < 1"
    by (rule js_trunc_error)
  then have d: "\<bar>real_of_int (js_trunc (c * 32767)) / 32767 - c\<bar> < 1 / 32767"
    by (simp add: abs_less_iff field_simps)
  then have "num_le (round_trip_error (js_trunc (c * 32767)) (Fin c)) (Fin (1 / 32767))"
    by (simp add: round_trip_error_def)
  with v c d cl show ?thesis
    by (simp add: encodeWAV_16)
qed

theorem quantization_round_trip_witness:
  "\<exists>buf. encodeWAV [Fin (1 / 2), Fin (- 7)] 1 48000 16 = Inr buf \<and>
     \<bar>real_of_int (getInt16 buf 44) / 32767 - 1 / 2\<bar> < 1 / 32767 \<and>
     \<bar>real_of_int (getInt16 buf 46) / 32767 - (- 1)\<bar> < 1 / 32767"
proof -
  let ?s = "[Fin (1 / 2), Fin (- 7)]"
  have c0: "Math_max (Fin (- 1)) (Math_min (Fin 1) (?s ! 0)) = Fin (1 / 2)"
    and c1: "Math_max (Fin (- 1)) (Math_min (Fin 1) (?s ! 1)) = Fin (- 1)"
    by (simp_all add: clamp_cases)
  have i0: "0 < length ?s" and i1: "1 < length ?s" by simp_all
  have n0: "?s ! 0 \<noteq> NaN" and n1: "?s ! 1 \<noteq> NaN" by simp_all
  from quantization_round_trip [OF i0 n0, of 1 48000]
  obtain buf c where buf: "encodeWAV ?s 1 48000 16 = Inr buf"
    and cl0: "Math_max (Fin (- 1)) (Math_min (Fin 1) (?s ! 0)) = Fin c"
    and e0: "\<bar>real_of_int (getInt16 buf (44 + 2 * 0)) / 32767 - c\<bar> < 1 / 32767"
    by blast
  from cl0 c0 have "c = 1 / 2" by (simp only: number.inject)
  with e0 have v0: "\<bar>real_of_int (getInt16 buf 44) / 32767 - 1 / 2\<bar> < 1 / 32767"
    by (simp only: mult_0_right add_0_right)
  from quantization_round_trip [OF i1 n1, of 1 48000]
  obtain buf' c' where buf': "encodeWAV ?s 1 48000 16 = Inr buf'"
    and cl1: "Math_max (Fin (- 1)) (Math_min (Fin 1) (?s ! 1)) = Fin c'"
    and e1: "\<bar>real_of_int (getInt16 buf' (44 + 2 * 1)) / 32767 - c'\<bar> < 1 / 32767"
    by blast
  from buf buf' have b: "buf' = buf" by simp
  from cl1 c1 have "c' = - 1" by (simp only: number.inject)
  with e1 b have v1: "\<bar>real_of_int (getInt16 buf 46) / 32767 - (- 1)\<bar> < 1 / 32767"
    by simp
  from buf v0 v1 show ?thesis by blast
qed

text \<open>
  The claim as stated, for every input sample, fails at a NaN sample: the clamp leaves
  it NaN, so there is no clamped value within any distance of the 0 that is stored, and
  the reader's check against \<open>1 / 32767\<close> is false.
\<close>

theorem round_trip_nan_counterexample:
  "encodeWAV [NaN] 1 48000 16 =
     Inr [82, 73, 70, 70, 38, 0, 0, 0, 87, 65, 86, 69, 102, 109, 116, 32, 16, 0, 0, 0,
          1, 0, 1, 0, 128, 187, 0, 0, 0, 119, 1, 0, 2, 0, 16, 0, 100, 97, 116, 97, 2, 0, 0, 0,
          0, 0] \<and>
   getInt16 (projr (encodeWAV [NaN] 1 48000 16)) 44 = 0 \<and>
   Math_max (Fin (- 1)) (Math_min (Fin 1) ([NaN] ! 0)) = NaN \<and>
   \<not> num_le (round_trip_error (getInt16 (projr (encodeWAV [NaN] 1 48000 16)) 44)
              (Math_max (Fin (- 1)) (Math_min (Fin 1) ([NaN] ! 0))))
            (Fin (1 / 32767))"
proof -
  have e: "encodeWAV [NaN] 1 48000 16 =
     Inr [82, 73, 70, 70, 38, 0, 0, 0, 87, 65, 86, 69, 102, 109, 116, 32, 16, 0, 0, 0,
          1, 0, 1, 0, 128, 187, 0, 0, 0, 119, 1, 0, 2, 0, 16, 0, 100, 97, 116, 97, 2, 0, 0, 0,
          0, 0]"
    by (simp add: encodeWAV_16 header_written_def le16_def le32_def to_uint_consts
          sample_bytes_def clamp_cases js_times_NaN)
  show ?thesis unfolding e
    by (simp add: getInt16_def getUint16_def getUint8_def clamp_cases round_trip_error_def)
qed

end
